theory Spec2Isabelle
  imports Main "HOL-Library.Sublist" "HOL-Library.AList" "HOL-Library.List_Lexorder"
    "HOL-Library.Char_ord"
begin

section \<open>Python values and exceptions\<close>

text \<open>
  The program works on whatever \<^verbatim>\<open>json.load\<close> returns. A parsed document is a value of
  \<open>json\<close>; an object is an association list in insertion order (its keys are distinct,
  lookup is \<open>map_of\<close>). \<open>JFloat m e\<close> stands for a number written with a fraction or an
  exponent; no function of the program computes with one.
\<close>

datatype json =
    JNull
  | JBool bool
  | JInt int
  | JFloat int int
  | JStr string
  | JArr "json list"
  | JObj "(string \<times> json) list"

text \<open>The exceptions the modelled code can raise. A raise is the value \<open>Inl e\<close>.\<close>

datatype py_error =
    KeyError
  | IndexError
  | TypeError
  | AttributeError
  | ValueError
  | OverflowError
  | OSError
  | FileNotFoundError
  | InvalidImageDataError

text \<open>Sequencing of two steps, the second skipped when the first raises.\<close>

definition and_then :: "py_error + 'a \<Rightarrow> ('a \<Rightarrow> py_error + 'b) \<Rightarrow> py_error + 'b" where
  "and_then m f = (case m of Inl e \<Rightarrow> Inl e | Inr v \<Rightarrow> f v)"

text \<open>\<^verbatim>\<open>x[k]\<close> for a string key \<open>k\<close>: only a dict accepts one.\<close>

fun getitem_str :: "json \<Rightarrow> string \<Rightarrow> py_error + json" where
  "getitem_str (JObj kvs) k = (case map_of kvs k of None \<Rightarrow> Inl KeyError | Some v \<Rightarrow> Inr v)"
| "getitem_str JNull k = Inl TypeError"
| "getitem_str (JBool b) k = Inl TypeError"
| "getitem_str (JInt i) k = Inl TypeError"
| "getitem_str (JFloat m e) k = Inl TypeError"
| "getitem_str (JStr s) k = Inl TypeError"
| "getitem_str (JArr vs) k = Inl TypeError"

text \<open>\<^verbatim>\<open>x.get(k, default)\<close>: only a dict has the method.\<close>

fun dict_get :: "json \<Rightarrow> string \<Rightarrow> json \<Rightarrow> py_error + json" where
  "dict_get (JObj kvs) k d = (case map_of kvs k of None \<Rightarrow> Inr d | Some v \<Rightarrow> Inr v)"
| "dict_get JNull k d = Inl AttributeError"
| "dict_get (JBool b) k d = Inl AttributeError"
| "dict_get (JInt i) k d = Inl AttributeError"
| "dict_get (JFloat m e) k d = Inl AttributeError"
| "dict_get (JStr s) k d = Inl AttributeError"
| "dict_get (JArr vs) k d = Inl AttributeError"

text \<open>
  \<^verbatim>\<open>x[0]\<close>: the first element of a list or the first character of a string, IndexError
  when there is none; a dict parsed from JSON has string keys only, so the key \<open>0\<close> is
  missing.
\<close>

fun getitem_0 :: "json \<Rightarrow> py_error + json" where
  "getitem_0 (JArr []) = Inl IndexError"
| "getitem_0 (JArr (v # vs)) = Inr v"
| "getitem_0 (JStr []) = Inl IndexError"
| "getitem_0 (JStr (c # cs)) = Inr (JStr [c])"
| "getitem_0 (JObj kvs) = Inl KeyError"
| "getitem_0 JNull = Inl TypeError"
| "getitem_0 (JBool b) = Inl TypeError"
| "getitem_0 (JInt i) = Inl TypeError"
| "getitem_0 (JFloat m e) = Inl TypeError"

section \<open>Photo.from\_json\_structure\<close>

text \<open>
  The dataclass \<^verbatim>\<open>Photo\<close>. Its annotations (\<^verbatim>\<open>str\<close>, \<^verbatim>\<open>int\<close>) are not enforced,
  so a field holds whatever the JSON held.
\<close>

record Photo =
  uri :: json
  timestamp :: json

text \<open>
  The chained lookup of \<^verbatim>\<open>from_json_structure\<close>:
  \<^verbatim>\<open>structure.get("media_metadata", {}).get("photo_metadata", {})
       .get("exif_data", [{}])[0].get("taken_timestamp")\<close>
\<close>

definition taken_timestamp :: "json \<Rightarrow> py_error + json" where
  "taken_timestamp structure =
     and_then (dict_get structure ''media_metadata'' (JObj [])) (\<lambda>media_metadata.
     and_then (dict_get media_metadata ''photo_metadata'' (JObj [])) (\<lambda>photo_metadata.
     and_then (dict_get photo_metadata ''exif_data'' (JArr [JObj []])) (\<lambda>exif_data.
     and_then (getitem_0 exif_data) (\<lambda>block.
     dict_get block ''taken_timestamp'' JNull))))"

definition from_json_structure :: "json \<Rightarrow> py_error + Photo" where
  "from_json_structure structure =
     and_then (getitem_str structure ''uri'') (\<lambda>u.
     and_then (taken_timestamp structure) (\<lambda>t.
     and_then (if t = JNull then getitem_str structure ''creation_timestamp'' else Inr t) (\<lambda>ts.
     Inr \<lparr>uri = u, timestamp = ts\<rparr>)))"

text \<open>
  The shape of a photo fragment in the export: an object with a \<open>uri\<close>, whose optional
  \<open>media_metadata\<close> and \<open>photo_metadata\<close> are objects and whose optional \<open>exif_data\<close>
  is a list of objects. Nothing is asked of the length of that list.
\<close>

fun is_dict :: "json \<Rightarrow> bool" where
  "is_dict (JObj kvs) = True"
| "is_dict JNull = False"
| "is_dict (JBool b) = False"
| "is_dict (JInt i) = False"
| "is_dict (JFloat m e) = False"
| "is_dict (JStr s) = False"
| "is_dict (JArr vs) = False"

definition exif_blocks_shaped :: "json \<Rightarrow> bool" where
  "exif_blocks_shaped e = (case e of JArr bs \<Rightarrow> list_all is_dict bs | _ \<Rightarrow> False)"

definition photo_metadata_shaped :: "json \<Rightarrow> bool" where
  "photo_metadata_shaped p =
     (case p of JObj kvs \<Rightarrow> (case map_of kvs ''exif_data'' of None \<Rightarrow> True | Some e \<Rightarrow> exif_blocks_shaped e)
      | _ \<Rightarrow> False)"

definition media_metadata_shaped :: "json \<Rightarrow> bool" where
  "media_metadata_shaped m =
     (case m of JObj kvs \<Rightarrow> (case map_of kvs ''photo_metadata'' of None \<Rightarrow> True | Some p \<Rightarrow> photo_metadata_shaped p)
      | _ \<Rightarrow> False)"

definition photo_fragment :: "json \<Rightarrow> bool" where
  "photo_fragment structure =
     (case structure of
        JObj kvs \<Rightarrow> (case map_of kvs ''media_metadata'' of None \<Rightarrow> True | Some m \<Rightarrow> media_metadata_shaped m)
      | _ \<Rightarrow> False)"

section \<open>extract\_photos\_from\_posts\<close>

text \<open>\<^verbatim>\<open>s.startswith(p)\<close>, \<^verbatim>\<open>s.endswith(p)\<close> and \<^verbatim>\<open>sub in s\<close> on strings.\<close>

fun startswith :: "string \<Rightarrow> string \<Rightarrow> bool" where
  "startswith s [] = True"
| "startswith [] (p # ps) = False"
| "startswith (c # cs) (p # ps) = (c = p \<and> startswith cs ps)"

definition endswith :: "string \<Rightarrow> string \<Rightarrow> bool" where
  "endswith s p = startswith (rev s) (rev p)"

fun str_in :: "string \<Rightarrow> string \<Rightarrow> bool" where
  "str_in sub [] = (sub = [])"
| "str_in sub (c # cs) = (startswith (c # cs) sub \<or> str_in sub cs)"

text \<open>
  \<^verbatim>\<open>k in x\<close> for a string \<open>k\<close>: a key of a dict, an element of a list, a substring of a
  string; any other value is not a container.
\<close>

fun contains_str :: "string \<Rightarrow> json \<Rightarrow> py_error + bool" where
  "contains_str k (JObj kvs) = Inr (map_of kvs k \<noteq> None)"
| "contains_str k (JArr vs) = Inr (JStr k \<in> set vs)"
| "contains_str k (JStr s) = Inr (str_in k s)"
| "contains_str k JNull = Inl TypeError"
| "contains_str k (JBool b) = Inl TypeError"
| "contains_str k (JInt i) = Inl TypeError"
| "contains_str k (JFloat m e) = Inl TypeError"

text \<open>
  \<^verbatim>\<open>for v in x\<close>: the elements of a list, the characters of a string, the keys of a
  dict; any other value is not iterable.
\<close>

fun iterate :: "json \<Rightarrow> py_error + json list" where
  "iterate (JArr vs) = Inr vs"
| "iterate (JStr s) = Inr (map (\<lambda>c. JStr [c]) s)"
| "iterate (JObj kvs) = Inr (map (\<lambda>kv. JStr (fst kv)) kvs)"
| "iterate JNull = Inl TypeError"
| "iterate (JBool b) = Inl TypeError"
| "iterate (JInt i) = Inl TypeError"
| "iterate (JFloat m e) = Inl TypeError"

text \<open>
  \<^verbatim>\<open>photo.get("attachments", [{}])[0].get("data", [{}])\<close>: the data section of the
  first attachment of a post.
\<close>

definition data_section :: "json \<Rightarrow> py_error + json" where
  "data_section photo =
     and_then (dict_get photo ''attachments'' (JArr [JObj []])) (\<lambda>attachments.
     and_then (getitem_0 attachments) (\<lambda>attachment.
     dict_get attachment ''data'' (JArr [JObj []])))"

text \<open>The inner loop over the entries of one data section; \<open>photos\<close> is the list built so far.\<close>

fun entries_loop :: "json list \<Rightarrow> Photo list \<Rightarrow> py_error + Photo list" where
  "entries_loop [] photos = Inr photos"
| "entries_loop (entry # rest) photos =
     (case contains_str ''media'' entry of
        Inl e \<Rightarrow> Inl e
      | Inr False \<Rightarrow> entries_loop rest photos
      | Inr True \<Rightarrow>
          (case getitem_str entry ''media'' of
             Inl e \<Rightarrow> Inl e
           | Inr media \<Rightarrow>
               (case from_json_structure media of
                  Inl e \<Rightarrow> Inl e
                | Inr p \<Rightarrow> entries_loop rest (photos @ [p]))))"

text \<open>The outer loop over the posts.\<close>

fun posts_loop :: "json list \<Rightarrow> Photo list \<Rightarrow> py_error + Photo list" where
  "posts_loop [] photos = Inr photos"
| "posts_loop (photo # rest) photos =
     (case data_section photo of
        Inl e \<Rightarrow> Inl e
      | Inr section \<Rightarrow>
          (case iterate section of
             Inl e \<Rightarrow> Inl e
           | Inr entries \<Rightarrow>
               (case entries_loop entries photos of
                  Inl e \<Rightarrow> Inl e
                | Inr photos' \<Rightarrow> posts_loop rest photos')))"

definition extract_photos_from_posts :: "json \<Rightarrow> py_error + Photo list" where
  "extract_photos_from_posts data = and_then (iterate data) (\<lambda>posts. posts_loop posts [])"

text \<open>
  What the data entries of a post are, read off the export's shape rather than off the
  code: \<open>attachment_entries\<close> are the entries of one attachment, \<open>all_entries\<close> those of
  every attachment of a post, \<open>first_entries\<close> those of its first attachment only. An
  entry is a photo when it is an object with a \<open>media\<close> key.
\<close>

fun has_media :: "json \<Rightarrow> bool" where
  "has_media (JObj kvs) = (map_of kvs ''media'' \<noteq> None)"
| "has_media JNull = False"
| "has_media (JBool b) = False"
| "has_media (JInt i) = False"
| "has_media (JFloat m e) = False"
| "has_media (JStr s) = False"
| "has_media (JArr vs) = False"

definition attachment_entries :: "json \<Rightarrow> json list" where
  "attachment_entries attachment =
     (case attachment of
        JObj kvs \<Rightarrow> (case map_of kvs ''data'' of Some (JArr entries) \<Rightarrow> entries | _ \<Rightarrow> [])
      | _ \<Rightarrow> [])"

definition attachments_of :: "json \<Rightarrow> json list" where
  "attachments_of post =
     (case post of
        JObj kvs \<Rightarrow> (case map_of kvs ''attachments'' of Some (JArr as) \<Rightarrow> as | _ \<Rightarrow> [])
      | _ \<Rightarrow> [])"

definition all_entries :: "json \<Rightarrow> json list" where
  "all_entries post = concat (map attachment_entries (attachments_of post))"

definition first_entries :: "json \<Rightarrow> json list" where
  "first_entries post = concat (map attachment_entries (take 1 (attachments_of post)))"

definition media_of :: "json \<Rightarrow> json" where
  "media_of entry = (case getitem_str entry ''media'' of Inr m \<Rightarrow> m | Inl e \<Rightarrow> JNull)"

text \<open>The records of the photo entries among \<open>entries\<close>, one per entry, in order.\<close>

definition media_records :: "json list \<Rightarrow> (py_error + Photo) list" where
  "media_records entries =
     map (\<lambda>entry. from_json_structure (media_of entry)) (filter has_media entries)"

section \<open>merge\_conversation\<close>

text \<open>
  \<^verbatim>\<open>merged_data["messages"].extend(data["messages"])\<close>. The target is evaluated first:
  \<^verbatim>\<open>merged_data["messages"]\<close>, then its method \<open>extend\<close>, which only a list has; then
  the argument, which \<open>extend\<close> iterates. The list is changed in place, so the key keeps
  its position in \<open>merged_data\<close>. (The subscript has already shown \<open>merged_data\<close> to be
  a dict when the last case distinction is reached.)
\<close>

definition extend_messages :: "json \<Rightarrow> json \<Rightarrow> py_error + json" where
  "extend_messages merged_data data =
     and_then (getitem_str merged_data ''messages'') (\<lambda>messages.
       case messages of
         JArr ms \<Rightarrow>
           and_then (getitem_str data ''messages'') (\<lambda>more.
           and_then (iterate more) (\<lambda>items.
             case merged_data of
               JObj kvs \<Rightarrow> Inr (JObj (AList.update ''messages'' (JArr (ms @ items)) kvs))
             | _ \<Rightarrow> Inl TypeError))
       | _ \<Rightarrow> Inl AttributeError)"

text \<open>
  The loop over the loaded files, \<open>index\<close> counting them as \<^verbatim>\<open>enumerate\<close> does; the
  third argument is \<open>merged_data\<close>.
\<close>

fun merge_loop :: "nat \<Rightarrow> json list \<Rightarrow> json \<Rightarrow> py_error + json" where
  "merge_loop index [] merged_data = Inr merged_data"
| "merge_loop index (data # rest) merged_data =
     (if index = 0 then merge_loop (Suc index) rest data
      else (case extend_messages merged_data data of
              Inl e \<Rightarrow> Inl e
            | Inr merged \<Rightarrow> merge_loop (Suc index) rest merged))"

text \<open>The loop started on the loaded documents in file order, \<open>merged_data\<close> being \<open>{}\<close>.\<close>

definition merge_fragments :: "json list \<Rightarrow> py_error + json" where
  "merge_fragments fragments = merge_loop 0 fragments (JObj [])"

text \<open>
  A directory is the list of its entries, a file name with the document \<^verbatim>\<open>json.load\<close>
  reads from it. The files whose name ends in \<open>.json\<close> are taken in the order in which
  their names sort as strings.
\<close>

definition merge_conversation :: "(string \<times> json) list \<Rightarrow> py_error + json" where
  "merge_conversation directory =
     merge_fragments (map snd (sort_key fst (filter (\<lambda>f. endswith (fst f) ''.json'') directory)))"

text \<open>
  A conversation fragment is an object whose \<open>messages\<close> is a list; \<open>messages_of\<close> is
  that list, and \<open>with_messages f ms\<close> is \<open>f\<close> with \<open>ms\<close> as its \<open>messages\<close>.
  \<open>messages_list_or_missing\<close> also admits an object with no \<open>messages\<close> at all.
\<close>

definition is_fragment :: "json \<Rightarrow> bool" where
  "is_fragment f =
     (case f of
        JObj kvs \<Rightarrow> (case map_of kvs ''messages'' of Some (JArr ms) \<Rightarrow> True | _ \<Rightarrow> False)
      | _ \<Rightarrow> False)"

definition messages_of :: "json \<Rightarrow> json list" where
  "messages_of f =
     (case f of
        JObj kvs \<Rightarrow> (case map_of kvs ''messages'' of Some (JArr ms) \<Rightarrow> ms | _ \<Rightarrow> [])
      | _ \<Rightarrow> [])"

definition with_messages :: "json \<Rightarrow> json list \<Rightarrow> json" where
  "with_messages f ms =
     (case f of JObj kvs \<Rightarrow> JObj (AList.update ''messages'' (JArr ms) kvs) | _ \<Rightarrow> f)"

definition messages_list_or_missing :: "json \<Rightarrow> bool" where
  "messages_list_or_missing f =
     (case f of
        JObj kvs \<Rightarrow> (case map_of kvs ''messages'' of None \<Rightarrow> True | Some (JArr ms) \<Rightarrow> True | Some _ \<Rightarrow> False)
      | _ \<Rightarrow> False)"

section \<open>The written timestamp\<close>

text \<open>
  Modelled from the spec: \<^verbatim>\<open>datetime.datetime.fromtimestamp\<close> and
  \<^verbatim>\<open>datetime.strftime\<close>, which decide what is written, belong to Python's standard
  library and are not among the sources of this program; the sources hold the calls
  and the format string only. The spec has the written value as a timestamp with
  second precision, rendered in UTC, using the pattern \<open>YYYY:MM:DD HH:MM:SS\<close>. The
  definitions of this section follow these words and, where the words leave the
  computation open, CPython on 64-bit Linux: the date of a day number is computed as
  \<^verbatim>\<open>_ord2ymd\<close> of \<^verbatim>\<open>Lib/_pydatetime.py\<close> computes it (proleptic Gregorian calendar,
  day 1 being 0001-01-01 and day 719163 being 1970-01-01), and a \<^verbatim>\<open>datetime\<close> holds the
  years 1 to 9999 only.
\<close>

text \<open>Modelled from the spec: the class \<^verbatim>\<open>datetime\<close>, its fields in UTC.\<close>

record DateTime =
  year :: int
  month :: int
  day :: int
  hour :: int
  minute :: int
  second :: int

text \<open>
  Modelled from the spec: the library's tables \<^verbatim>\<open>_DAYS_BEFORE_MONTH\<close> and
  \<^verbatim>\<open>_DAYS_IN_MONTH\<close>, indexed from 1.
\<close>

definition days_before_month :: "int \<Rightarrow> int" where
  "days_before_month m = [-1, 0, 31, 59, 90, 120, 151, 181, 212, 243, 273, 304, 334] ! nat m"

definition days_in_month :: "int \<Rightarrow> int" where
  "days_in_month m = [-1, 31, 28, 31, 30, 31, 30, 31, 31, 30, 31, 30, 31] ! nat m"

text \<open>
  Modelled from the spec: the second half of the library's \<^verbatim>\<open>_ord2ymd\<close>, month and day
  of the \<open>n\<close>-th day (from 0) of a year: an estimate of the month that is right or one
  too large, then the correction.
\<close>

definition month_and_day :: "bool \<Rightarrow> int \<Rightarrow> int \<times> int" where
  "month_and_day leapyear n =
     (let month = (n + 50) div 32;
          preceding = days_before_month month + (if month > 2 \<and> leapyear then 1 else 0)
      in if preceding > n
         then (let month' = month - 1;
                   preceding' = preceding
                     - (days_in_month month' + (if month' = 2 \<and> leapyear then 1 else 0))
               in (month', n - preceding' + 1))
         else (month, n - preceding + 1))"

text \<open>
  Modelled from the spec: the library's \<^verbatim>\<open>_ord2ymd\<close>, year, month and day of a day
  number, by cycles of 400, 100, 4 and 1 years.
\<close>

definition ord2ymd :: "int \<Rightarrow> int \<times> int \<times> int" where
  "ord2ymd ordinal =
     (let n = ordinal - 1;
          n400 = n div 146097; r400 = n mod 146097;
          n100 = r400 div 36524; r100 = r400 mod 36524;
          n4 = r100 div 1461; r4 = r100 mod 1461;
          n1 = r4 div 365; r1 = r4 mod 365;
          y = n400 * 400 + 1 + n100 * 100 + n4 * 4 + n1
      in if n1 = 4 \<or> n100 = 4 then (y - 1, 12, 31)
         else (case month_and_day (n1 = 3 \<and> (n4 \<noteq> 24 \<or> n100 = 3)) r1 of
                 (m, d) \<Rightarrow> (y, m, d)))"

text \<open>
  Modelled from the spec: \<^verbatim>\<open>datetime.datetime.fromtimestamp(t, datetime.UTC)\<close> for an
  integer \<open>t\<close>. No offset is applied. A \<open>t\<close> that does not fit the platform's 64-bit
  \<^verbatim>\<open>time_t\<close> raises OverflowError; a year that does not fit the C library's 32-bit
  \<^verbatim>\<open>tm_year\<close> (years counted from 1900) makes \<^verbatim>\<open>gmtime\<close> fail, which raises OSError;
  any other year outside 1 to 9999 raises ValueError.
\<close>

definition fromtimestamp :: "int \<Rightarrow> py_error + DateTime" where
  "fromtimestamp t =
     (if t < - (2 ^ 63) \<or> 2 ^ 63 \<le> t then Inl OverflowError
      else
        (let days = t div 86400; secs = t mod 86400 in
         case ord2ymd (days + 719163) of
           (y, m, d) \<Rightarrow>
             if y - 1900 < - (2 ^ 31) \<or> 2 ^ 31 \<le> y - 1900 then Inl OSError
             else if 1 \<le> y \<and> y \<le> 9999
             then Inr \<lparr>year = y, month = m, day = d,
                       hour = secs div 3600, minute = secs mod 3600 div 60, second = secs mod 60\<rparr>
             else Inl ValueError))"

text \<open>
  Modelled from the spec: decimal digits, and a number printed with leading zeros up to
  a width, as the fields of \<^verbatim>\<open>strftime\<close> are.
\<close>

definition digit :: "nat \<Rightarrow> char" where
  "digit d = ''0123456789'' ! d"

fun decimal :: "nat \<Rightarrow> string" where
  "decimal n = (if n < 10 then [digit n] else decimal (n div 10) @ [digit (n mod 10)])"

declare decimal.simps [simp del]

definition zero_padded :: "nat \<Rightarrow> int \<Rightarrow> string" where
  "zero_padded width n = replicate (width - length (decimal (nat n))) CHR ''0'' @ decimal (nat n)"

text \<open>
  Modelled from the spec: \<^verbatim>\<open>new_date.strftime("%Y:%m:%d %H:%M:%S")\<close>, the format string
  being the one of the sources. Month, day, hour, minute and second are printed on two
  digits. The year is printed by the platform's C library: on four digits with leading
  zeros, or, with glibc under CPython 3.11 and 3.12, with no padding (year 999 prints
  as \<open>999\<close>); \<open>pad_year\<close> says which. From year 1000 on the two agree.
\<close>

definition strftime :: "bool \<Rightarrow> DateTime \<Rightarrow> string" where
  "strftime pad_year d =
     zero_padded (if pad_year then 4 else 1) (year d) @ '':'' @ zero_padded 2 (month d) @ '':''
     @ zero_padded 2 (day d) @ '' '' @ zero_padded 2 (hour d) @ '':''
     @ zero_padded 2 (minute d) @ '':'' @ zero_padded 2 (second d)"












section \<open>modify\_date\_taken\<close>

text \<open>
  The EXIF data \<^verbatim>\<open>piexif.load\<close> returns: a dict from the name of an image file
  directory (\<open>0th\<close>, \<open>Exif\<close>, \<open>GPS\<close>, ...) to a dict from tag numbers to values.
\<close>

datatype exif_value = ExifText string | ExifBytes "nat list"

type_synonym exif_dict = "(string \<times> (nat \<times> exif_value) list) list"

text \<open>
  What the function takes from outside this program: the C library's \<^verbatim>\<open>%Y\<close> and the
  three functions of the \<^verbatim>\<open>piexif\<close> package, which decode the metadata block of a
  file's bytes, encode one, and put an encoded block into a file's bytes.
\<close>

record platform =
  strftime_pads_year :: bool
  piexif_load :: "string \<Rightarrow> py_error + exif_dict"
  piexif_dump :: "exif_dict \<Rightarrow> py_error + string"
  piexif_insert :: "string \<Rightarrow> string \<Rightarrow> py_error + string"

text \<open>The files on disk, and the accesses to them so far.\<close>

datatype io_event = Loaded string | Inserted string

record world =
  files :: "string \<rightharpoonup> string"
  io_log :: "io_event list"

text \<open>\<^verbatim>\<open>piexif.ExifIFD.DateTimeOriginal\<close>, tag 0x9003.\<close>

definition DateTimeOriginal :: nat where
  "DateTimeOriginal = 36867"

text \<open>\<^verbatim>\<open>exif_dict["Exif"][piexif.ExifIFD.DateTimeOriginal] = formatted_date\<close>\<close>

definition set_date_time_original :: "exif_dict \<Rightarrow> string \<Rightarrow> py_error + exif_dict" where
  "set_date_time_original exif_dict formatted =
     (case map_of exif_dict ''Exif'' of
        None \<Rightarrow> Inl KeyError
      | Some ifd \<Rightarrow>
          Inr (AList.update ''Exif'' (AList.update DateTimeOriginal (ExifText formatted) ifd)
                 exif_dict))"

definition read_file :: "world \<Rightarrow> string \<Rightarrow> py_error + string" where
  "read_file w path = (case files w path of None \<Rightarrow> Inl FileNotFoundError | Some c \<Rightarrow> Inr c)"

text \<open>
  The function: the guard on the extension first; then \<^verbatim>\<open>piexif.load\<close> reads the
  file, the field is set, \<^verbatim>\<open>piexif.dump\<close> encodes, and \<^verbatim>\<open>piexif.insert\<close> reads the file
  again and writes it back.
\<close>

definition modify_date_taken ::
    "platform \<Rightarrow> world \<Rightarrow> string \<Rightarrow> DateTime \<Rightarrow> py_error + world" where
  "modify_date_taken env w photo_path new_date =
     (if \<not> endswith photo_path ''.jpg'' then Inr w
      else
        and_then (read_file w photo_path) (\<lambda>content.
        and_then (piexif_load env content) (\<lambda>exif_dict.
        and_then (set_date_time_original exif_dict
                    (strftime (strftime_pads_year env) new_date)) (\<lambda>exif_dict'.
        and_then (piexif_dump env exif_dict') (\<lambda>exif_bytes.
        and_then (read_file w photo_path) (\<lambda>image.
        and_then (piexif_insert env exif_bytes image) (\<lambda>new_file.
        Inr (w\<lparr>files := (files w)(photo_path \<mapsto> new_file),
                io_log := io_log w @ [Loaded photo_path, Inserted photo_path]\<rparr>))))))))"

text \<open>The value stored under \<^verbatim>\<open>exif_dict["Exif"][piexif.ExifIFD.DateTimeOriginal]\<close>.\<close>

definition date_time_original :: "exif_dict \<Rightarrow> exif_value option" where
  "date_time_original exif_dict =
     (case map_of exif_dict ''Exif'' of None \<Rightarrow> None | Some ifd \<Rightarrow> map_of ifd DateTimeOriginal)"

text \<open>
  The body of the last loop of \<^verbatim>\<open>main\<close>, for a record whose \<open>uri\<close> is a string and
  whose \<open>timestamp\<close> is an integer:
  \<^verbatim>\<open>filepath = URI_ROOT + photo.uri\<close>,
  \<^verbatim>\<open>timestamp = datetime.datetime.fromtimestamp(photo.timestamp, datetime.UTC)\<close>,
  \<^verbatim>\<open>modify_date_taken(filepath, timestamp)\<close>.
\<close>

definition URI_ROOT :: string where
  "URI_ROOT = ''facebook_data/''"

definition write_photo :: "platform \<Rightarrow> world \<Rightarrow> string \<Rightarrow> int \<Rightarrow> py_error + world" where
  "write_photo env w photo_uri photo_timestamp =
     (let filepath = URI_ROOT @ photo_uri in
      and_then (fromtimestamp photo_timestamp) (\<lambda>timestamp.
      modify_date_taken env w filepath timestamp))"

section \<open>Example documents\<close>

text \<open>A photo fragment whose \<open>exif_data\<close> is present and empty, with and without an upload time.\<close>

definition empty_exif_fragment :: json where
  "empty_exif_fragment =
     JObj [(''uri'', JStr ''photos/a.jpg''), (''creation_timestamp'', JInt 1000),
           (''media_metadata'', JObj [(''photo_metadata'', JObj [(''exif_data'', JArr [])])])]"

definition empty_exif_no_creation :: json where
  "empty_exif_no_creation =
     JObj [(''uri'', JStr ''photos/a.jpg''),
           (''media_metadata'', JObj [(''photo_metadata'', JObj [(''exif_data'', JArr [])])])]"

text \<open>A post with two data entries, a photo and a place.\<close>

definition mixed_post :: json where
  "mixed_post =
     JObj [(''title'', JStr ''A day out''),
           (''attachments'', JArr [JObj [(''data'',
              JArr [JObj [(''media'', JObj [(''uri'', JStr ''photos/a.jpg''),
                                            (''creation_timestamp'', JInt 1000)])],
                    JObj [(''place'', JObj [(''name'', JStr ''Pier'')])]])]])]"

text \<open>A post with two attachments of one photo each.\<close>

definition two_attachment_post :: json where
  "two_attachment_post =
     JObj [(''attachments'',
        JArr [JObj [(''data'', JArr [JObj [(''media'',
                 JObj [(''uri'', JStr ''photos/a.jpg''), (''creation_timestamp'', JInt 1000)])]])],
              JObj [(''data'', JArr [JObj [(''media'',
                 JObj [(''uri'', JStr ''photos/b.jpg''), (''creation_timestamp'', JInt 2000)])]])]])]"

text \<open>Fragments of a conversation; the last has no \<open>messages\<close>.\<close>

definition fragment_a :: json where
  "fragment_a = JObj [(''participants'', JArr [JStr ''Ann'', JStr ''Bo'']),
                      (''messages'', JArr [JStr ''a'']), (''title'', JStr ''Ann and Bo'')]"

definition fragment_bc :: json where
  "fragment_bc = JObj [(''messages'', JArr [JStr ''b'', JStr ''c'']), (''title'', JStr ''other'')]"

definition fragment_no_messages :: json where
  "fragment_no_messages = JObj [(''participants'', JArr [JStr ''Ann'', JStr ''Bo''])]"

text \<open>
  A disk with a PNG and an upper-case JPG, a \<^verbatim>\<open>piexif\<close> whose every call fails, and a
  date.
\<close>

definition some_world :: world where
  "some_world = \<lparr>files = [''facebook_data/photos/a.png'' \<mapsto> ''png bytes'',
                           ''facebook_data/photos/b.JPG'' \<mapsto> ''jpeg bytes''],
                 io_log = []\<rparr>"

definition failing_platform :: platform where
  "failing_platform = \<lparr>strftime_pads_year = False,
      piexif_load = (\<lambda>c. Inl InvalidImageDataError),
      piexif_dump = (\<lambda>d. Inl ValueError),
      piexif_insert = (\<lambda>e c. Inl InvalidImageDataError)\<rparr>"

definition some_date :: DateTime where
  "some_date = \<lparr>year = 2023, month = 11, day = 14, hour = 22, minute = 13, second = 20\<rparr>"

text \<open>
  A disk with a JPG, and a \<^verbatim>\<open>piexif\<close> that works: its encoded block is the date it was
  given, and inserting puts the block in front of the file's bytes.
\<close>

definition jpg_world :: world where
  "jpg_world = \<lparr>files = [''facebook_data/photos/c.jpg'' \<mapsto> ''jpeg bytes''], io_log = []\<rparr>"

definition working_platform :: platform where
  "working_platform = \<lparr>strftime_pads_year = False,
      piexif_load = (\<lambda>c. Inr [(''0th'', []), (''Exif'', [])]),
      piexif_dump = (\<lambda>d. case date_time_original d of
                            Some (ExifText s) \<Rightarrow> Inr s | _ \<Rightarrow> Inr []),
      piexif_insert = (\<lambda>e c. Inr (e @ ''|'' @ c))\<rparr>"

text \<open>A post whose list of attachments is empty.\<close>

definition no_attachment_post :: json where
  "no_attachment_post = JObj [(''title'', JStr ''A thought''), (''attachments'', JArr [])]"

section \<open>Properties of single-fragment extraction\<close>

lemma and_then_Inr [simp]: "and_then (Inr v) f = f v"
  by (simp add: and_then_def)

lemma and_then_Inl [simp]: "and_then (Inl e) f = Inl e"
  by (simp add: and_then_def)

lemma is_dict_iff: "is_dict b = (\<exists>kvs. b = JObj kvs)"
  by (cases b) simp_all

lemma getitem_0_JArr:
  "getitem_0 (JArr xs) = (case xs of [] \<Rightarrow> Inl IndexError | v # vs \<Rightarrow> Inr v)"
  by (cases xs) simp_all

text \<open>
  C1. A fragment that has a \<open>uri\<close>, a \<open>creation_timestamp\<close> and a \<open>taken_timestamp\<close> in the
  first block of \<open>media_metadata\<close> \<rightarrow> \<open>photo_metadata\<close> \<rightarrow> \<open>exif_data\<close> is extracted to a
  record whose timestamp is the taken timestamp \<open>t\<close>, whatever the creation timestamp
  \<open>c\<close> and the later blocks are. (A \<open>taken_timestamp\<close> of \<open>null\<close> counts as absent.)
\<close>

theorem from_json_structure_prefers_taken:
  assumes "map_of kvs ''uri'' = Some u"
    and "map_of kvs ''creation_timestamp'' = Some c"
    and "map_of kvs ''media_metadata'' = Some (JObj mm)"
    and "map_of mm ''photo_metadata'' = Some (JObj pm)"
    and "map_of pm ''exif_data'' = Some (JArr (JObj blk # blocks))"
    and "map_of blk ''taken_timestamp'' = Some t"
    and "t \<noteq> JNull"
  shows "from_json_structure (JObj kvs) = Inr \<lparr>uri = u, timestamp = t\<rparr>"
  using assms by (simp add: from_json_structure_def taken_timestamp_def)

theorem from_json_structure_prefers_taken_witness:
  "from_json_structure
     (JObj [(''uri'', JStr ''photos/a.jpg''), (''creation_timestamp'', JInt 1000),
            (''media_metadata'', JObj [(''photo_metadata'',
               JObj [(''exif_data'', JArr [JObj [(''taken_timestamp'', JInt 2000)]])])])])
   = Inr \<lparr>uri = JStr ''photos/a.jpg'', timestamp = JInt 2000\<rparr>"
  using from_json_structure_prefers_taken
    [of "[(''uri'', JStr ''photos/a.jpg''), (''creation_timestamp'', JInt 1000),
          (''media_metadata'', JObj [(''photo_metadata'',
             JObj [(''exif_data'', JArr [JObj [(''taken_timestamp'', JInt 2000)]])])])]"
        "JStr ''photos/a.jpg''" "JInt 1000"
        "[(''photo_metadata'', JObj [(''exif_data'', JArr [JObj [(''taken_timestamp'', JInt 2000)]])])]"
        "[(''exif_data'', JArr [JObj [(''taken_timestamp'', JInt 2000)]])]"
        "[(''taken_timestamp'', JInt 2000)]" "[]" "JInt 2000"]
  by simp

text \<open>
  On a fragment of the export's shape the chained lookup either returns a value or
  raises IndexError, and extraction raises nothing but KeyError and IndexError.
\<close>

lemma taken_timestamp_total:
  assumes "photo_fragment s"
  shows "(\<exists>t. taken_timestamp s = Inr t) \<or> taken_timestamp s = Inl IndexError"
  using assms
  by (auto simp: photo_fragment_def media_metadata_shaped_def photo_metadata_shaped_def
      exif_blocks_shaped_def taken_timestamp_def is_dict_iff getitem_0_JArr
      split: json.splits option.splits list.splits)

lemma from_json_structure_failures:
  assumes "photo_fragment s" and "from_json_structure s = Inl e"
  shows "e = KeyError \<or> e = IndexError"
proof -
  from assms(1) obtain kvs where s: "s = JObj kvs"
    by (auto simp: photo_fragment_def split: json.splits)
  from taken_timestamp_total[OF assms(1)] assms(2) show ?thesis
    by (auto simp: from_json_structure_def s and_then_def split: option.splits if_splits sum.splits)
qed

text \<open>
  C3. The claim is that a missing required field is the only failure of single-fragment
  extraction, also on a fragment whose \<open>exif_data\<close> is an empty list. On such a
  fragment, with \<open>uri\<close> and \<open>creation_timestamp\<close> both present, the subscript \<open>[0]\<close>
  raises IndexError.
\<close>

theorem from_json_structure_empty_exif_data:
  "photo_fragment empty_exif_fragment
   \<and> getitem_str empty_exif_fragment ''uri'' = Inr (JStr ''photos/a.jpg'')
   \<and> getitem_str empty_exif_fragment ''creation_timestamp'' = Inr (JInt 1000)
   \<and> from_json_structure empty_exif_fragment = Inl IndexError"
  by (simp add: empty_exif_fragment_def photo_fragment_def media_metadata_shaped_def
      photo_metadata_shaped_def exif_blocks_shaped_def from_json_structure_def
      taken_timestamp_def)

text \<open>
  When the chained lookup finds nothing, the timestamp is the \<open>creation_timestamp\<close>, and
  a fragment without one raises KeyError.
\<close>

lemma from_json_structure_fallback:
  assumes "taken_timestamp s = Inr JNull"
  shows "from_json_structure s =
     and_then (getitem_str s ''uri'') (\<lambda>u.
     and_then (getitem_str s ''creation_timestamp'') (\<lambda>c. Inr \<lparr>uri = u, timestamp = c\<rparr>))"
  using assms by (simp add: from_json_structure_def)

text \<open>
  C4. The claim is that a fragment with no taken timestamp is extracted with its
  \<open>creation_timestamp\<close>, and fails with a missing-field error when that is absent too.
  A fragment whose \<open>exif_data\<close> is an empty list has no taken timestamp; extraction
  does not fall back to its creation timestamp 1000, and without a creation timestamp
  the error is IndexError, not KeyError.
\<close>

theorem from_json_structure_empty_exif_data_no_fallback:
  "from_json_structure empty_exif_fragment
     \<noteq> Inr \<lparr>uri = JStr ''photos/a.jpg'', timestamp = JInt 1000\<rparr>
   \<and> getitem_str empty_exif_no_creation ''creation_timestamp'' = Inl KeyError
   \<and> from_json_structure empty_exif_no_creation \<noteq> Inl KeyError"
  by (simp add: empty_exif_fragment_def empty_exif_no_creation_def from_json_structure_def
      taken_timestamp_def)

section \<open>Properties of post extraction\<close>

lemma has_media_JStr_filter: "filter has_media (map (\<lambda>c. JStr (f c)) xs) = []"
  by (induction xs) auto

text \<open>A run of the inner loop that returns has appended the record of each photo entry.\<close>

lemma entries_loop_Inr:
  "entries_loop es acc = Inr r \<Longrightarrow> map Inr r = map Inr acc @ media_records es"
proof (induction es arbitrary: acc)
  case Nil
  then show ?case by (simp add: media_records_def)
next
  case (Cons entry es)
  show ?case
  proof (cases entry)
    case (JObj kvs)
    with Cons.prems Cons.IH show ?thesis
      by (auto simp: media_records_def media_of_def split: sum.splits bool.splits option.splits)
  next
    case (JArr vs)
    with Cons.prems Cons.IH show ?thesis
      by (auto simp: media_records_def split: sum.splits bool.splits if_splits)
  next
    case (JStr s)
    with Cons.prems Cons.IH show ?thesis
      by (auto simp: media_records_def split: sum.splits bool.splits if_splits)
  qed (use Cons.prems in auto)
qed

lemma dict_get_Inr_dict: "dict_get b k d = Inr v \<Longrightarrow> \<exists>kvs. b = JObj kvs"
  by (cases b) simp_all

lemma getitem_0_Inr_dict:
  assumes "getitem_0 a = Inr b" and "dict_get b k d = Inr v"
  shows "\<exists>kvs later. a = JArr (JObj kvs # later) \<and> b = JObj kvs"
proof -
  from assms(2) obtain kvs where b: "b = JObj kvs"
    using dict_get_Inr_dict by blast
  from assms(1) b show ?thesis
    by (cases a rule: getitem_0.cases) simp_all
qed

text \<open>The data section the code reads holds the photo entries of the first attachment.\<close>

lemma data_section_entries:
  assumes "data_section p = Inr sec" and "iterate sec = Inr es"
  shows "filter has_media es = filter has_media (first_entries p)"
proof -
  from assms(1) obtain kvs where p: "p = JObj kvs"
    by (cases p) (auto simp: data_section_def)
  show ?thesis
  proof (cases "map_of kvs ''attachments''")
    case None
    with assms p show ?thesis
      by (auto simp: data_section_def first_entries_def attachments_of_def)
  next
    case (Some a)
    with assms(1) p obtain b where
      "getitem_0 a = Inr b" "dict_get b ''data'' (JArr [JObj []]) = Inr sec"
      by (cases "getitem_0 a") (auto simp: data_section_def)
    then obtain att later where a: "a = JArr (JObj att # later)"
      using getitem_0_Inr_dict by blast
    show ?thesis
    proof (cases "map_of att ''data''")
      case None
      with assms p Some a show ?thesis
        by (auto simp: data_section_def first_entries_def attachments_of_def attachment_entries_def)
    next
      case (Some d)
      with assms p \<open>map_of kvs ''attachments'' = Some a\<close> a show ?thesis
        by (cases d) (auto simp: data_section_def first_entries_def attachments_of_def
            attachment_entries_def has_media_JStr_filter)
    qed
  qed
qed

lemma posts_loop_Inr:
  "posts_loop ps acc = Inr r \<Longrightarrow>
   map Inr r = map Inr acc @ media_records (concat (map first_entries ps))"
proof (induction ps arbitrary: acc)
  case Nil
  then show ?case by (simp add: media_records_def)
next
  case (Cons p ps)
  from Cons.prems obtain sec es r' where
    sec: "data_section p = Inr sec" and es: "iterate sec = Inr es"
    and r': "entries_loop es acc = Inr r'" and rest: "posts_loop ps r' = Inr r"
    by (auto split: sum.splits)
  have "map Inr r = map Inr r' @ media_records (concat (map first_entries ps))"
    by (rule Cons.IH[OF rest])
  moreover have "map Inr r' = map Inr acc @ media_records es"
    by (rule entries_loop_Inr[OF r'])
  moreover have "media_records es = media_records (first_entries p)"
    using data_section_entries[OF sec es] by (simp add: media_records_def)
  ultimately show ?case by (simp add: media_records_def)
qed

text \<open>
  Whenever extraction returns, its records are, in order, the extractions of the
  \<open>media\<close> of the entries that have one in the first attachment of each post, the
  entries without \<open>media\<close> left out.
\<close>

lemma extract_photos_from_posts_reads_first_attachment:
  assumes "extract_photos_from_posts (JArr posts) = Inr photos"
  shows "map Inr photos = media_records (concat (map first_entries posts))"
    and "length photos = length (filter has_media (concat (map first_entries posts)))"
proof -
  from assms show *: "map Inr photos = media_records (concat (map first_entries posts))"
    using posts_loop_Inr[of posts "[]" photos] by (simp add: extract_photos_from_posts_def)
  from * have "length (map Inr photos :: (py_error + Photo) list)
      = length (media_records (concat (map first_entries posts)))"
    by simp
  then show "length photos = length (filter has_media (concat (map first_entries posts)))"
    by (simp add: media_records_def)
qed

text \<open>
  The post with two data entries, one with \<open>media\<close> and one without, yields exactly one
  record.
\<close>

lemma extract_photos_from_posts_mixed_post:
  "extract_photos_from_posts (JArr [mixed_post])
     = Inr [\<lparr>uri = JStr ''photos/a.jpg'', timestamp = JInt 1000\<rparr>]"
  by (simp add: extract_photos_from_posts_def mixed_post_def data_section_def
      from_json_structure_def taken_timestamp_def)

text \<open>
  C2. The claim is that extraction returns one record for each data entry with a
  \<open>media\<close> key, across every attachment of every post. The post below has two
  attachments of one photo each, so two data entries with \<open>media\<close>; extraction returns
  one record, that of the first attachment, and \<open>photos/b.jpg\<close> is lost without an
  error.
\<close>

theorem extract_photos_from_posts_drops_later_attachments:
  "extract_photos_from_posts (JArr [two_attachment_post])
     = Inr [\<lparr>uri = JStr ''photos/a.jpg'', timestamp = JInt 1000\<rparr>]
   \<and> length (filter has_media (concat (map all_entries [two_attachment_post]))) = 2"
  by (simp add: extract_photos_from_posts_def two_attachment_post_def data_section_def
      from_json_structure_def taken_timestamp_def all_entries_def attachments_of_def
      attachment_entries_def)

text \<open>
  A post whose list of attachments is empty has no data entry at all; the subscript
  \<open>[0]\<close> raises IndexError instead of the post being passed over.
\<close>

lemma extract_photos_from_posts_empty_attachments:
  "extract_photos_from_posts (JArr [no_attachment_post]) = Inl IndexError"
  by (simp add: extract_photos_from_posts_def no_attachment_post_def data_section_def)

section \<open>Properties of the conversation merge\<close>

lemma is_fragmentE:
  assumes "is_fragment f"
  obtains kvs ms where "f = JObj kvs" "map_of kvs ''messages'' = Some (JArr ms)"
proof -
  from assms obtain kvs where f: "f = JObj kvs"
    by (cases f) (simp_all add: is_fragment_def)
  with assms obtain v where v: "map_of kvs ''messages'' = Some v"
    by (cases "map_of kvs ''messages''") (simp_all add: is_fragment_def)
  with assms f obtain ms where "v = JArr ms"
    by (cases v) (simp_all add: is_fragment_def)
  with f v that show ?thesis by blast
qed

lemma update_existing:
  "map_of kvs k = Some v \<Longrightarrow> AList.update k w (AList.update k v' kvs) = AList.update k w kvs"
  by (induction kvs) auto

lemma extend_messages_fragments:
  assumes "is_fragment merged" and "is_fragment data"
  shows "extend_messages merged data = Inr (with_messages merged (messages_of merged @ messages_of data))"
proof -
  from assms(1) obtain kvs ms where m: "merged = JObj kvs" "map_of kvs ''messages'' = Some (JArr ms)"
    by (rule is_fragmentE)
  from assms(2) obtain kvs' ms' where d: "data = JObj kvs'" "map_of kvs' ''messages'' = Some (JArr ms')"
    by (rule is_fragmentE)
  from m d show ?thesis
    by (simp add: extend_messages_def with_messages_def messages_of_def)
qed

lemma with_messages_fragment:
  "is_fragment f \<Longrightarrow> is_fragment (with_messages f ms)"
  by (erule is_fragmentE) (simp add: with_messages_def is_fragment_def update_conv')

lemma messages_of_with_messages:
  "is_fragment f \<Longrightarrow> messages_of (with_messages f ms) = ms"
  by (erule is_fragmentE) (simp add: with_messages_def messages_of_def update_conv')

lemma with_messages_twice:
  "is_fragment f \<Longrightarrow> with_messages (with_messages f ms) ms' = with_messages f ms'"
  by (erule is_fragmentE) (simp add: with_messages_def update_existing)

lemma with_messages_same:
  "is_fragment f \<Longrightarrow> with_messages f (messages_of f) = f"
proof (erule is_fragmentE)
  fix kvs ms
  assume f: "f = JObj kvs" and m: "map_of kvs ''messages'' = Some (JArr ms)"
  have "AList.update ''messages'' (JArr ms) kvs = kvs"
    using m by (induction kvs) (auto split: if_splits)
  with f m show ?thesis by (simp add: with_messages_def messages_of_def)
qed

lemma merge_loop_fragments:
  assumes "is_fragment merged" and "list_all is_fragment rest"
  shows "merge_loop (Suc n) rest merged
           = Inr (with_messages merged (messages_of merged @ concat (map messages_of rest)))"
  using assms
proof (induction rest arbitrary: merged n)
  case Nil
  then show ?case by (simp add: with_messages_same)
next
  case (Cons data rest)
  let ?m = "with_messages merged (messages_of merged @ messages_of data)"
  from Cons.prems have d: "is_fragment data" and r: "list_all is_fragment rest"
    by simp_all
  have step: "extend_messages merged data = Inr ?m"
    by (rule extend_messages_fragments[OF Cons.prems(1) d])
  have "is_fragment ?m"
    by (rule with_messages_fragment[OF Cons.prems(1)])
  from Cons.IH[OF this r, of "Suc n"] step Cons.prems(1) show ?case
    by (simp add: messages_of_with_messages with_messages_twice)
qed

lemma merge_fragments_single: "merge_fragments [f] = Inr f"
  by (simp add: merge_fragments_def)

text \<open>
  C5, as the code has it. For every non-empty sequence of fragments the merge returns
  a document whose \<open>messages\<close> is the concatenation of the fragments' \<open>messages\<close>
  lists in fragment order, and merging a single document returns that document itself.
  (The claim has this for every sequence; the empty one is the exception below.)
\<close>

theorem merge_conversation_concatenates:
  "(fragments \<noteq> [] \<and> list_all is_fragment fragments \<longrightarrow>
      (\<exists>merged. merge_fragments fragments = Inr merged
         \<and> getitem_str merged ''messages'' = Inr (JArr (concat (map messages_of fragments)))))
   \<and> merge_fragments [f] = Inr f"
proof (intro conjI impI)
  assume a: "fragments \<noteq> [] \<and> list_all is_fragment fragments"
  then obtain first rest where fr: "fragments = first # rest"
    by (cases fragments) auto
  with a have f: "is_fragment first" and r: "list_all is_fragment rest"
    by simp_all
  let ?all = "messages_of first @ concat (map messages_of rest)"
  have "merge_fragments fragments = Inr (with_messages first ?all)"
    using merge_loop_fragments[OF f r, of 0] by (simp add: merge_fragments_def fr)
  moreover have "getitem_str (with_messages first ?all) ''messages'' = Inr (JArr ?all)"
    using f by (elim is_fragmentE) (simp add: with_messages_def update_conv')
  ultimately show "\<exists>merged. merge_fragments fragments = Inr merged
         \<and> getitem_str merged ''messages'' = Inr (JArr (concat (map messages_of fragments)))"
    by (simp add: fr)
next
  show "merge_fragments [f] = Inr f"
    by (simp add: merge_fragments_def)
qed

text \<open>The same through the directory listing: \<open>message_1.json\<close> sorts first.\<close>

lemma merge_conversation_example:
  "merge_conversation
     [(''message_2.json'', JObj [(''messages'', JArr [JStr ''b'', JStr ''c''])]),
      (''photos'', JNull),
      (''message_1.json'', JObj [(''participants'', JArr [JStr ''Ann'']), (''messages'', JArr [JStr ''a''])])]
   = Inr (JObj [(''participants'', JArr [JStr ''Ann'']), (''messages'', JArr [JStr ''a'', JStr ''b'', JStr ''c''])])"
  by code_simp

text \<open>Merging \<open>{"messages": [a], ...}\<close> and \<open>{"messages": [b, c], ...}\<close> gives \<open>[a, b, c]\<close>.\<close>

theorem merge_conversation_concatenates_witness:
  "([fragment_a, fragment_bc] \<noteq> [] \<and> list_all is_fragment [fragment_a, fragment_bc])
   \<and> merge_fragments [fragment_a, fragment_bc]
       = Inr (JObj [(''participants'', JArr [JStr ''Ann'', JStr ''Bo'']),
                    (''messages'', JArr [JStr ''a'', JStr ''b'', JStr ''c'']),
                    (''title'', JStr ''Ann and Bo'')])
   \<and> concat (map messages_of [fragment_a, fragment_bc]) = [JStr ''a'', JStr ''b'', JStr ''c'']
   \<and> merge_fragments [fragment_a] = Inr fragment_a"
proof -
  have shaped: "[fragment_a, fragment_bc] \<noteq> [] \<and> list_all is_fragment [fragment_a, fragment_bc]"
    by (simp add: is_fragment_def fragment_a_def fragment_bc_def)
  have run: "merge_fragments [fragment_a, fragment_bc]
       = Inr (JObj [(''participants'', JArr [JStr ''Ann'', JStr ''Bo'']),
                    (''messages'', JArr [JStr ''a'', JStr ''b'', JStr ''c'']),
                    (''title'', JStr ''Ann and Bo'')])"
    by (simp add: merge_fragments_def extend_messages_def fragment_a_def fragment_bc_def)
  have msgs: "concat (map messages_of [fragment_a, fragment_bc]) = [JStr ''a'', JStr ''b'', JStr ''c'']"
    by (simp add: messages_of_def fragment_a_def fragment_bc_def)
  from merge_conversation_concatenates[of "[fragment_a, fragment_bc]" fragment_a] shaped run msgs
  show ?thesis by blast
qed

text \<open>
  C5 as stated fails on the empty sequence: the merged document is \<open>{}\<close>, which has no
  \<open>messages\<close> field, while the concatenation of no lists is the empty list.
\<close>

theorem merge_conversation_empty_counterexample:
  "merge_fragments [] = Inr (JObj [])
   \<and> getitem_str (JObj []) ''messages'' = Inl KeyError
   \<and> concat (map messages_of []) = []"
  by (simp add: merge_fragments_def)

lemma update_keeps_keys:
  "map_of kvs k = Some v \<Longrightarrow> map fst (AList.update k w kvs) = map fst kvs"
  by (induction kvs) (auto split: if_splits)

lemma extend_messages_fields:
  assumes "extend_messages merged data = Inr merged'"
  shows "\<exists>kvs kvs'. merged = JObj kvs \<and> merged' = JObj kvs'
           \<and> map fst kvs' = map fst kvs
           \<and> (\<forall>k. k \<noteq> ''messages'' \<longrightarrow> map_of kvs' k = map_of kvs k)"
proof -
  from assms obtain kvs where m: "merged = JObj kvs"
    by (cases merged) (simp_all add: extend_messages_def)
  with assms obtain v where v: "map_of kvs ''messages'' = Some v"
    by (cases "map_of kvs ''messages''") (simp_all add: extend_messages_def)
  with assms m obtain ms where ms: "v = JArr ms"
    by (cases v) (simp_all add: extend_messages_def)
  from assms m v ms obtain items where
    m': "merged' = JObj (AList.update ''messages'' (JArr (ms @ items)) kvs)"
    by (auto simp: extend_messages_def and_then_def split: sum.splits)
  have "map fst (AList.update ''messages'' w kvs) = map fst kvs" for w
    by (rule update_keeps_keys[OF v])
  with m m' show ?thesis by (simp add: update_conv')
qed

lemma merge_loop_fields:
  "merge_loop (Suc n) rest (JObj kvs) = Inr merged \<Longrightarrow>
   \<exists>kvs'. merged = JObj kvs' \<and> map fst kvs' = map fst kvs
     \<and> (\<forall>k. k \<noteq> ''messages'' \<longrightarrow> map_of kvs' k = map_of kvs k)"
proof (induction rest arbitrary: kvs n)
  case Nil
  then show ?case by auto
next
  case (Cons data rest)
  from Cons.prems obtain m where step: "extend_messages (JObj kvs) data = Inr m"
    and rest: "merge_loop (Suc (Suc n)) rest m = Inr merged"
    by (auto split: sum.splits)
  from extend_messages_fields[OF step] obtain kvs1 where
    m: "m = JObj kvs1" "map fst kvs1 = map fst kvs"
    "\<forall>k. k \<noteq> ''messages'' \<longrightarrow> map_of kvs1 k = map_of kvs k"
    by auto
  from Cons.IH[of "Suc n" kvs1 ] rest m(1) obtain kvs' where
    "merged = JObj kvs'" "map fst kvs' = map fst kvs1"
    "\<forall>k. k \<noteq> ''messages'' \<longrightarrow> map_of kvs' k = map_of kvs1 k"
    by auto
  with m show ?case by simp
qed

text \<open>
  C6. When a merge of two or more fragments returns, the first fragment and the merged
  document are objects with the same keys in the same order, and every key other than
  \<open>messages\<close> has in the merged document the value it has in the first fragment.
\<close>

theorem merge_conversation_keeps_first_fields:
  assumes "merge_fragments (first # later # rest) = Inr merged"
  shows "iterate merged = iterate first
         \<and> (\<forall>k. k \<noteq> ''messages'' \<longrightarrow> getitem_str merged k = getitem_str first k)"
proof -
  from assms have loop: "merge_loop (Suc 0) (later # rest) first = Inr merged"
    by (simp add: merge_fragments_def)
  then obtain m where "extend_messages first later = Inr m"
    by (auto split: sum.splits)
  then obtain kvs where f: "first = JObj kvs"
    using extend_messages_fields by blast
  from merge_loop_fields[of 0 "later # rest" kvs merged] loop f obtain kvs' where
    "merged = JObj kvs'" "map fst kvs' = map fst kvs"
    "\<forall>k. k \<noteq> ''messages'' \<longrightarrow> map_of kvs' k = map_of kvs k"
    by auto
  note m = this
  have "map (\<lambda>kv. JStr (fst kv)) kvs' = map JStr (map fst kvs')"
    by (simp add: comp_def)
  also have "\<dots> = map JStr (map fst kvs)"
    by (simp only: m(2))
  also have "\<dots> = map (\<lambda>kv. JStr (fst kv)) kvs"
    by (simp add: comp_def)
  finally show ?thesis
    using f m(1,3) by simp
qed

theorem merge_conversation_keeps_first_fields_witness:
  "merge_fragments [fragment_a, fragment_bc]
       = Inr (JObj [(''participants'', JArr [JStr ''Ann'', JStr ''Bo'']),
                    (''messages'', JArr [JStr ''a'', JStr ''b'', JStr ''c'']),
                    (''title'', JStr ''Ann and Bo'')])
   \<and> iterate (JObj [(''participants'', JArr [JStr ''Ann'', JStr ''Bo'']),
                    (''messages'', JArr [JStr ''a'', JStr ''b'', JStr ''c'']),
                    (''title'', JStr ''Ann and Bo'')]) = iterate fragment_a
   \<and> getitem_str (JObj [(''participants'', JArr [JStr ''Ann'', JStr ''Bo'']),
                    (''messages'', JArr [JStr ''a'', JStr ''b'', JStr ''c'']),
                    (''title'', JStr ''Ann and Bo'')]) ''title'' = getitem_str fragment_a ''title''"
proof -
  have run: "merge_fragments [fragment_a, fragment_bc]
       = Inr (JObj [(''participants'', JArr [JStr ''Ann'', JStr ''Bo'']),
                    (''messages'', JArr [JStr ''a'', JStr ''b'', JStr ''c'']),
                    (''title'', JStr ''Ann and Bo'')])"
    by (simp add: merge_fragments_def extend_messages_def fragment_a_def fragment_bc_def)
  note kept = merge_conversation_keeps_first_fields[OF run]
  from kept have keys: "iterate (JObj [(''participants'', JArr [JStr ''Ann'', JStr ''Bo'']),
                    (''messages'', JArr [JStr ''a'', JStr ''b'', JStr ''c'']),
                    (''title'', JStr ''Ann and Bo'')]) = iterate fragment_a"
    by (rule conjunct1)
  from kept have "''title'' \<noteq> ''messages'' \<longrightarrow>
      getitem_str (JObj [(''participants'', JArr [JStr ''Ann'', JStr ''Bo'']),
                    (''messages'', JArr [JStr ''a'', JStr ''b'', JStr ''c'']),
                    (''title'', JStr ''Ann and Bo'')]) ''title'' = getitem_str fragment_a ''title''"
    by (rule spec[OF conjunct2])
  then have title: "getitem_str (JObj [(''participants'', JArr [JStr ''Ann'', JStr ''Bo'']),
                    (''messages'', JArr [JStr ''a'', JStr ''b'', JStr ''c'']),
                    (''title'', JStr ''Ann and Bo'')]) ''title'' = getitem_str fragment_a ''title''"
    by simp
  from run keys title show ?thesis by (intro conjI)
qed

lemma is_fragment_messages_list: "is_fragment f \<Longrightarrow> messages_list_or_missing f"
  by (erule is_fragmentE) (simp add: messages_list_or_missing_def)

lemma missing_messages:
  assumes "messages_list_or_missing f" and "\<not> is_fragment f"
  shows "getitem_str f ''messages'' = Inl KeyError"
proof -
  from assms(1) obtain kvs where f: "f = JObj kvs"
    by (cases f) (simp_all add: messages_list_or_missing_def)
  show ?thesis
  proof (cases "map_of kvs ''messages''")
    case None
    with f show ?thesis by simp
  next
    case (Some v)
    with assms f show ?thesis
      by (cases v) (simp_all add: messages_list_or_missing_def is_fragment_def)
  qed
qed

lemma extend_messages_missing_left:
  "getitem_str merged ''messages'' = Inl KeyError \<Longrightarrow> extend_messages merged data = Inl KeyError"
  by (simp add: extend_messages_def)

lemma extend_messages_missing_right:
  assumes "is_fragment merged" and "getitem_str data ''messages'' = Inl KeyError"
  shows "extend_messages merged data = Inl KeyError"
  using assms(1)
  by (rule is_fragmentE) (simp add: extend_messages_def assms(2))

lemma merge_loop_missing:
  assumes "messages_list_or_missing merged"
    and "list_all messages_list_or_missing rest"
    and "\<not> list_all is_fragment rest"
  shows "merge_loop (Suc n) rest merged = Inl KeyError"
  using assms
proof (induction rest arbitrary: merged n)
  case Nil
  then show ?case by simp
next
  case (Cons data rest)
  from Cons.prems(2) have d: "messages_list_or_missing data"
    and r: "list_all messages_list_or_missing rest"
    by simp_all
  show ?case
  proof (cases "is_fragment merged")
    case False
    with Cons.prems(1) have "extend_messages merged data = Inl KeyError"
      by (simp add: missing_messages extend_messages_missing_left)
    then show ?thesis by simp
  next
    case True
    note m = this
    show ?thesis
    proof (cases "is_fragment data")
      case False
      with d m have "extend_messages merged data = Inl KeyError"
        by (simp add: missing_messages extend_messages_missing_right)
      then show ?thesis by simp
    next
      case True
      let ?m = "with_messages merged (messages_of merged @ messages_of data)"
      have step: "extend_messages merged data = Inr ?m"
        by (rule extend_messages_fragments[OF m True])
      have "messages_list_or_missing ?m"
        by (rule is_fragment_messages_list[OF with_messages_fragment[OF m]])
      moreover from Cons.prems(3) True have "\<not> list_all is_fragment rest"
        by simp
      ultimately have "merge_loop (Suc (Suc n)) rest ?m = Inl KeyError"
        using r by (intro Cons.IH)
      with step show ?thesis by simp
    qed
  qed
qed

text \<open>
  C8. Among fragments that are objects whose \<open>messages\<close>, where present, is a list, a
  fragment after the first that has no \<open>messages\<close> makes the merge raise KeyError.
\<close>

theorem merge_conversation_missing_messages:
  assumes "list_all messages_list_or_missing (first # rest)"
    and "\<not> list_all is_fragment rest"
  shows "merge_fragments (first # rest) = Inl KeyError"
  using assms merge_loop_missing[of first rest 0]
  by (simp add: merge_fragments_def)

theorem merge_conversation_missing_messages_witness:
  "list_all messages_list_or_missing [fragment_a, fragment_bc, fragment_no_messages]
   \<and> \<not> list_all is_fragment [fragment_bc, fragment_no_messages]
   \<and> getitem_str fragment_no_messages ''messages'' = Inl KeyError
   \<and> merge_fragments [fragment_a, fragment_bc, fragment_no_messages] = Inl KeyError"
proof -
  have a: "list_all messages_list_or_missing [fragment_a, fragment_bc, fragment_no_messages]"
    by (simp add: messages_list_or_missing_def fragment_a_def fragment_bc_def
        fragment_no_messages_def)
  have b: "\<not> list_all is_fragment [fragment_bc, fragment_no_messages]"
    by (simp add: is_fragment_def fragment_no_messages_def)
  have c: "getitem_str fragment_no_messages ''messages'' = Inl KeyError"
    by (simp add: fragment_no_messages_def)
  from merge_conversation_missing_messages[OF a b] a b c show ?thesis by (intro conjI)
qed

section \<open>Properties of the written timestamp\<close>



































text \<open>The step of \<^verbatim>\<open>main\<close> on a JPG, with a \<^verbatim>\<open>piexif\<close> that works.\<close>

lemma write_photo_example:
  "write_photo working_platform jpg_world ''photos/c.jpg'' 1700000000
     = Inr \<lparr>files = [''facebook_data/photos/c.jpg'' \<mapsto> ''2023:11:14 22:13:20|jpeg bytes''],
            io_log = [Loaded ''facebook_data/photos/c.jpg'',
                      Inserted ''facebook_data/photos/c.jpg'']\<rparr>"
proof -
  have d: "fromtimestamp 1700000000 = Inr some_date"
    by (simp add: fromtimestamp_def ord2ymd_def month_and_day_def days_before_month_def
        days_in_month_def Let_def some_date_def)
  have s: "strftime False some_date = ''2023:11:14 22:13:20''"
    by (simp add: strftime_def zero_padded_def decimal.simps digit_def some_date_def)
  show ?thesis
    by (simp add: write_photo_def d modify_date_taken_def working_platform_def jpg_world_def
        URI_ROOT_def endswith_def read_file_def s set_date_time_original_def
        date_time_original_def DateTimeOriginal_def Let_def)
qed



section \<open>Properties of the extension guard\<close>

text \<open>\<open>endswith\<close> is the suffix relation of the list library.\<close>

lemma startswith_prefix: "startswith s p = prefix p s"
  by (induction s p rule: startswith.induct) auto

lemma endswith_suffix: "endswith s p = suffix p s"
  by (simp add: endswith_def startswith_prefix suffix_to_prefix)

text \<open>
  C9. For a path that does not end in \<open>.jpg\<close> the function returns, and the world it
  returns is the one it was given: no file is changed and nothing is raised, whatever
  the \<^verbatim>\<open>piexif\<close> functions would do.
\<close>

theorem modify_date_taken_skips_other_extensions:
  assumes "\<not> endswith photo_path ''.jpg''"
  shows "modify_date_taken env w photo_path new_date = Inr w"
  using assms by (simp add: modify_date_taken_def)

theorem modify_date_taken_skips_other_extensions_witness:
  "\<not> endswith ''facebook_data/photos/a.png'' ''.jpg''
   \<and> modify_date_taken failing_platform some_world ''facebook_data/photos/a.png'' some_date
       = Inr some_world"
proof -
  have a: "\<not> endswith ''facebook_data/photos/a.png'' ''.jpg''"
    by (simp add: endswith_def)
  from modify_date_taken_skips_other_extensions[OF a] a show ?thesis
    by simp
qed

lemma startswith_Cons: "startswith s (c # cs) = (\<exists>t. s = c # t \<and> startswith t cs)"
  by (cases s) auto

text \<open>
  C10. The guard compares the last four characters with \<open>.jpg\<close> exactly: a path ending
  in \<open>.JPG\<close>, \<open>.Jpg\<close> or \<open>.jpeg\<close> does not pass it, and the function returns the world
  unchanged, its log of file accesses included: nothing is read, written or raised.
\<close>

theorem modify_date_taken_case_sensitive:
  assumes "endswith photo_path ''.JPG'' \<or> endswith photo_path ''.Jpg''
           \<or> endswith photo_path ''.jpeg''"
  shows "\<not> endswith photo_path ''.jpg''
         \<and> modify_date_taken env w photo_path new_date = Inr w"
proof -
  have "\<not> endswith photo_path ''.jpg''"
    using assms
    by (auto simp: endswith_def startswith_Cons)
  then show ?thesis by (simp add: modify_date_taken_def)
qed

theorem modify_date_taken_case_sensitive_witness:
  "endswith ''facebook_data/photos/b.JPG'' ''.JPG''
   \<and> \<not> endswith ''facebook_data/photos/b.JPG'' ''.jpg''
   \<and> modify_date_taken failing_platform some_world ''facebook_data/photos/b.JPG'' some_date
       = Inr some_world"
proof -
  have a: "endswith ''facebook_data/photos/b.JPG'' ''.JPG''"
    by (simp add: endswith_def)
  then have "endswith ''facebook_data/photos/b.JPG'' ''.JPG''
      \<or> endswith ''facebook_data/photos/b.JPG'' ''.Jpg''
      \<or> endswith ''facebook_data/photos/b.JPG'' ''.jpeg''"
    by (rule disjI1)
  from modify_date_taken_case_sensitive[OF this] a show ?thesis
    by simp
qed

end
